theory Spec2Isabelle
  imports Complex_Main "HOL-Library.Word" "HOL-Library.Log_Nat"
begin

unbundle bit_operations_syntax

section \<open>Single-precision arithmetic\<close>

text \<open>
  The pedal positions \<open>left\<close> and \<open>right\<close> are C++ \<open>float\<close>s. A finite binary32 value
  is modelled by the rational number it denotes, and every operation rounds its exact
  result to the nearest value with a 24-bit significand, ties to even, with the gradual
  underflow of binary32 (smallest exponent \<open>-126\<close>). Every operand of this program is at
  most \<open>65535\<close> in magnitude, so overflow to infinity does not occur and is not modelled.
\<close>

definition rne :: "rat \<Rightarrow> int" where
  "rne q = (let f = \<lfloor>q\<rfloor>; d = q - of_int f
            in if d < 1 / 2 then f else if 1 / 2 < d then f + 1
               else if even f then f else f + 1)"

definition ilog2 :: "rat \<Rightarrow> int" where
  "ilog2 x = (case quotient_of \<bar>x\<bar> of (p, q) \<Rightarrow>
     let d = bitlen p - bitlen q in if 2 powi d \<le> \<bar>x\<bar> then d else d - 1)"

definition f32_round :: "rat \<Rightarrow> rat" where
  "f32_round x = (if x = 0 then 0 else
     let e = max (ilog2 x) (- 126); u = 2 powi (e - 23) in of_int (rne (x / u)) * u)"

definition f32_of_int32 :: "32 word \<Rightarrow> rat" where
  "f32_of_int32 w = f32_round (of_int (sint w))"

definition f32_of_uint32 :: "32 word \<Rightarrow> rat" where
  "f32_of_uint32 w = f32_round (of_int (uint w))"

definition f32_div :: "rat \<Rightarrow> rat \<Rightarrow> rat" where
  "f32_div a b = f32_round (a / b)"

definition f32_mul :: "rat \<Rightarrow> rat \<Rightarrow> rat" where
  "f32_mul a b = f32_round (a * b)"

definition f32_sub :: "rat \<Rightarrow> rat \<Rightarrow> rat" where
  "f32_sub a b = f32_round (a - b)"

section \<open>Joystick events and the shared variables\<close>

text \<open>
  \<open>struct js_event\<close> and the event type constants come from \<open>linux/joystick.h\<close>:
  \<open>JS_EVENT_BUTTON = 0x01\<close>, \<open>JS_EVENT_AXIS = 0x02\<close>, \<open>JS_EVENT_INIT = 0x80\<close>;
  \<open>EAGAIN\<close> is 11 on Linux. The field \<open>value\<close> is a signed 16-bit integer,
  \<open>type\<close> and \<open>number\<close> are unsigned bytes.
\<close>

record js_event =
  js_time :: "32 word"
  js_value :: "16 word"
  js_type :: "8 word"
  js_number :: "8 word"

definition JS_EVENT_BUTTON :: "8 word" where "JS_EVENT_BUTTON = 0x01"
definition JS_EVENT_AXIS :: "8 word" where "JS_EVENT_AXIS = 0x02"
definition JS_EVENT_INIT :: "8 word" where "JS_EVENT_INIT = 0x80"
definition EAGAIN :: int where "EAGAIN = 11"

text \<open>
  The constants of \<open>main\<close>. \<open>commandlineArguments\<close> is the map returned by
  \<open>cluon::getCommandlineArguments\<close>; the two axis indices are the bytes that
  \<open>std::stoi\<close> and the conversion to \<open>uint8_t\<close> produce, \<open>DEVICE\<close> the device path.
\<close>

record config =
  commandlineArguments :: "string \<rightharpoonup> string"
  AXIS_LEFT_UPDOWN :: "8 word"
  AXIS_RIGHT_UPDOWN :: "8 word"
  DEVICE :: string

definition MIN_AXES_VALUE :: "32 word" where "MIN_AXES_VALUE = - 32768"
definition MAX_AXES_VALUE :: "32 word" where "MAX_AXES_VALUE = 32767"

text \<open>The variables guarded by \<open>valuesMutex\<close>: \<open>left\<close>, \<open>right\<close>, \<open>state\<close>, \<open>hasError\<close>.\<close>

record shared =
  left :: rat
  right :: rat
  state :: int
  hasError :: bool

definition shared_init :: shared where
  "shared_init = \<lparr>left = 0, right = 0, state = - 1, hasError = False\<rparr>"

text \<open>
  \<open>percent\<close> of lines 123 and 128: \<open>js.value - MIN_AXES_VALUE\<close> is computed in
  \<open>int\<close> after promotion of the 16-bit value, \<open>MAX_AXES_VALUE - MIN_AXES_VALUE\<close> in
  \<open>uint32_t\<close>; both are converted to \<open>float\<close> and divided.
\<close>

definition percent_of :: "16 word \<Rightarrow> rat" where
  "percent_of v = f32_div (f32_of_int32 (scast v - MIN_AXES_VALUE))
                          (f32_of_uint32 (MAX_AXES_VALUE - MIN_AXES_VALUE))"

definition pedal_of :: "16 word \<Rightarrow> rat" where
  "pedal_of v = f32_sub 1 (f32_mul 2 (percent_of v))"

text \<open>The body of the read loop (lines 118 to 144): one event applied to the variables.\<close>

definition decode :: "config \<Rightarrow> js_event \<Rightarrow> shared \<Rightarrow> shared" where
  "decode cfg js s =
     (let t = js_type js AND NOT JS_EVENT_INIT in
      if t = JS_EVENT_AXIS then
        (let s1 = (if AXIS_LEFT_UPDOWN cfg = js_number js
                   then s\<lparr>left := pedal_of (js_value js)\<rparr> else s)
         in if AXIS_RIGHT_UPDOWN cfg = js_number js
            then s1\<lparr>right := pedal_of (js_value js)\<rparr> else s1)
      else if t = JS_EVENT_BUTTON then
        (if js_value js = 1 then s\<lparr>state := uint (js_number js)\<rparr> else s)
      else if t = JS_EVENT_INIT then s
      else s)"

section \<open>The time-triggered delegate\<close>

datatype msg = PedalPositionRequest rat | SwitchStateRequest int

text \<open>
  \<open>od4.send(m, now, stamp)\<close> appends the message and its sender stamp to the sequence of
  messages handed to the session; the time stamp is left out.
\<close>

definition send :: "msg \<Rightarrow> nat \<Rightarrow> (msg \<times> nat) list \<Rightarrow> (msg \<times> nat) list" where
  "send m stamp out = out @ [(m, stamp)]"

text \<open>The lambda of lines 156 to 175: the messages it sends and the value it returns.\<close>

definition tick :: "shared \<Rightarrow> (msg \<times> nat) list \<times> bool" where
  "tick s =
     (let out1 = (if state s = 0
                  then send (PedalPositionRequest (right s)) 10
                         (send (PedalPositionRequest (left s)) 0 [])
                  else []);
          out2 = send (SwitchStateRequest (state s)) 99 out1
      in (out2, \<not> hasError s))"

text \<open>The three messages of lines 177 to 184.\<close>

definition neutral :: "(msg \<times> nat) list" where
  "neutral = send (SwitchStateRequest (- 1)) 99
               (send (PedalPositionRequest 0) 10
                  (send (PedalPositionRequest 0) 0 []))"

section \<open>The program as a transition system\<close>

text \<open>
  \<open>main\<close> and the reading thread interleave. Each has a program counter; a step of one
  thread is one statement (or one system call) of the source, and it is enabled unless
  the thread waits for \<open>valuesMutex\<close>, waits in \<open>join\<close>, has not been started or has
  ended. What the environment decides (the result of \<open>open\<close>, of \<open>select\<close>, of \<open>read\<close>,
  of \<open>od4.isRunning()\<close>, and whether the scheduler is stopped from outside) is an input
  of the step.
\<close>

datatype thread = TMain | TPoller

text \<open>
  The program counters of \<open>main\<close>, by the lines of the source they stand before:
  \<open>MArgs\<close> the test of the arguments (40 to 47); \<open>MOpen\<close> the \<open>open\<close> of the device
  and, when it succeeds, the log line, \<open>fcntl\<close> and the start of the reading thread
  (60 to 152); \<open>MSession\<close> the test of \<open>od4.isRunning()\<close> (155); \<open>MTrigger\<close> the head of
  the loop inside \<open>timeTrigger\<close> (156); \<open>MTickLock\<close>, \<open>MTickBody\<close>, \<open>MTickUnlock\<close> the
  \<open>lock_guard\<close> of the delegate (157), its body (160 to 174) and its return (175);
  \<open>MBurst\<close> the three messages after the loop (177 to 184); \<open>MSdLock\<close>, \<open>MSdSet\<close>,
  \<open>MSdJoin\<close>, \<open>MSdUnlock\<close> the block of lines 187 to 191; \<open>MClose\<close> line 193;
  \<open>MRetCode\<close> line 194; \<open>MReturn\<close> line 197.

  Those of the reading thread: \<open>PWhile\<close> the test of the loop (102); \<open>PSelect\<close> the call
  of \<open>select\<close> and the test of the descriptor (106 to 113); \<open>PLock\<close> the \<open>lock_guard\<close>
  (114); \<open>PRead\<close> a call of \<open>read\<close> with the body of the read loop (117 to 145);
  \<open>PErrno\<close> the test of \<open>errno\<close> (146 to 149); \<open>PUnlock\<close> the end of the block (150);
  \<open>PDone\<close> the end of the thread (152).
\<close>

datatype mpc = MArgs | MOpen | MSession | MTrigger | MTickLock | MTickBody | MTickUnlock
  | MBurst | MSdLock | MSdSet | MSdJoin | MSdUnlock | MClose | MRetCode | MReturn | MExited

datatype ppc = PNotStarted | PWhile | PSelect | PLock | PRead | PErrno | PUnlock | PDone

text \<open>
  \<open>::read\<close> returns a positive count and fills \<open>js\<close>, or returns \<open>-1\<close> and sets
  \<open>errno\<close>, or returns \<open>0\<close> and leaves \<open>errno\<close> as it was.
\<close>

datatype read_result = Got js_event | Failed int | Zero

datatype device = DevNone | DevOpen | DevClosed

datatype diag = Usage | CouldNotOpen string int | ReadError int

datatype origin = FromTick | FromBurst

datatype action = Cerr diag | Clog | Spawn | Acquire thread | Release thread
  | Select | Read | Send origin msg nat | SetError | Join | Close | Exit int

record env =
  open_ret :: int
  open_errno :: int
  running :: bool
  stop :: bool
  ready :: bool
  rd :: read_result

text \<open>
  The state: both program counters, the owner of \<open>valuesMutex\<close>, the guarded
  variables, \<open>errno\<close> of the reading thread, the device handle, the result of
  \<open>od4.isRunning()\<close> once it was asked, the value the delegate returned last,
  \<open>retCode\<close>, and the actions performed so far, each with the owner of the mutex at
  the moment it was performed.
\<close>

record sys =
  mpc :: mpc
  ppc :: ppc
  lock :: "thread option"
  vals :: shared
  p_errno :: int
  dev :: device
  isRunning :: "bool option"
  cont :: bool
  retCode :: int
  trace :: "(thread option \<times> action) list"

definition init :: sys where
  "init = \<lparr>mpc = MArgs, ppc = PNotStarted, lock = None, vals = shared_init, p_errno = 0,
            dev = DevNone, isRunning = None, cont = True, retCode = 0, trace = []\<rparr>"

definition emit :: "action \<Rightarrow> sys \<Rightarrow> sys" where
  "emit a s = s\<lparr>trace := trace s @ [(lock s, a)]\<rparr>"

definition emits :: "action list \<Rightarrow> sys \<Rightarrow> sys" where
  "emits as s = s\<lparr>trace := trace s @ map (\<lambda>a. (lock s, a)) as\<rparr>"

definition required :: "string list" where
  "required = [''cid'', ''device'', ''freq'', ''axis-left-updown'', ''axis-right-updown'']"

definition missing_argument :: "(string \<rightharpoonup> string) \<Rightarrow> bool" where
  "missing_argument args = list_ex (\<lambda>k. args k = None) required"

text \<open>
  Modelled from the spec: \<open>OD4Session::timeTrigger\<close> is declared in
  \<open>cluon-complete.hpp\<close>, which is not among the sources. The spec describes it as the
  Publisher's scheduler, which calls the delegate once per tick, "must stop future
  invocations once continue is false", and also halts on an external stop. \<open>main\<close> calls
  it and goes on with the next statement when it returns. At the head of its loop the
  scheduler returns to \<open>main\<close> when it was stopped from outside and calls the delegate
  otherwise.
\<close>

definition trigger_head :: "bool \<Rightarrow> mpc" where
  "trigger_head stopped = (if stopped then MBurst else MTickLock)"

text \<open>
  Modelled from the spec: the other half of \<open>OD4Session::timeTrigger\<close>, which is not
  among the sources. After a call of the delegate the scheduler goes on with the next
  tick when the delegate returned true and returns to \<open>main\<close> otherwise.
\<close>

definition trigger_after :: "bool \<Rightarrow> mpc" where
  "trigger_after continue = (if continue then MTrigger else MBurst)"

definition main_enabled :: "sys \<Rightarrow> bool" where
  "main_enabled s =
     (case mpc s of
        MTickLock \<Rightarrow> lock s = None
      | MSdLock \<Rightarrow> lock s = None
      | MSdJoin \<Rightarrow> ppc s = PDone
      | MExited \<Rightarrow> False
      | _ \<Rightarrow> True)"

definition main_exec :: "config \<Rightarrow> env \<Rightarrow> sys \<Rightarrow> sys" where
  "main_exec cfg e s =
     (case mpc s of
        MArgs \<Rightarrow>
          if missing_argument (commandlineArguments cfg)
          then (emit (Cerr Usage) s)\<lparr>retCode := 1, mpc := MReturn\<rparr>
          else s\<lparr>mpc := MOpen\<rparr>
      | MOpen \<Rightarrow>
          if open_ret e = - 1
          then (emit (Cerr (CouldNotOpen (DEVICE cfg) (open_errno e))) s)\<lparr>mpc := MReturn\<rparr>
          else (emit Spawn (emit Clog s))\<lparr>dev := DevOpen, ppc := PWhile, mpc := MSession\<rparr>
      | MSession \<Rightarrow>
          if running e then s\<lparr>isRunning := Some True, mpc := MTrigger\<rparr>
          else s\<lparr>isRunning := Some False, mpc := MSdLock\<rparr>
      | MTrigger \<Rightarrow> s\<lparr>mpc := trigger_head (stop e)\<rparr>
      | MTickLock \<Rightarrow> (emit (Acquire TMain) s)\<lparr>lock := Some TMain, mpc := MTickBody\<rparr>
      | MTickBody \<Rightarrow>
          (case tick (vals s) of (out, c) \<Rightarrow>
             (emits (map (\<lambda>(m, k). Send FromTick m k) out) s)\<lparr>cont := c, mpc := MTickUnlock\<rparr>)
      | MTickUnlock \<Rightarrow>
          (emit (Release TMain) s)\<lparr>lock := None, mpc := trigger_after (cont s)\<rparr>
      | MBurst \<Rightarrow> (emits (map (\<lambda>(m, k). Send FromBurst m k) neutral) s)\<lparr>mpc := MSdLock\<rparr>
      | MSdLock \<Rightarrow> (emit (Acquire TMain) s)\<lparr>lock := Some TMain, mpc := MSdSet\<rparr>
      | MSdSet \<Rightarrow> (emit SetError s)\<lparr>vals := (vals s)\<lparr>hasError := True\<rparr>, mpc := MSdJoin\<rparr>
      | MSdJoin \<Rightarrow> (emit Join s)\<lparr>mpc := MSdUnlock\<rparr>
      | MSdUnlock \<Rightarrow> (emit (Release TMain) s)\<lparr>lock := None, mpc := MClose\<rparr>
      | MClose \<Rightarrow> (emit Close s)\<lparr>dev := DevClosed, mpc := MRetCode\<rparr>
      | MRetCode \<Rightarrow> s\<lparr>retCode := 0, mpc := MReturn\<rparr>
      | MReturn \<Rightarrow> (emit (Exit (retCode s)) s)\<lparr>mpc := MExited\<rparr>
      | MExited \<Rightarrow> s)"

definition poller_enabled :: "sys \<Rightarrow> bool" where
  "poller_enabled s =
     (case ppc s of
        PNotStarted \<Rightarrow> False
      | PLock \<Rightarrow> lock s = None
      | PDone \<Rightarrow> False
      | _ \<Rightarrow> True)"

definition poller_exec :: "config \<Rightarrow> env \<Rightarrow> sys \<Rightarrow> sys" where
  "poller_exec cfg e s =
     (case ppc s of
        PNotStarted \<Rightarrow> s
      | PWhile \<Rightarrow> if hasError (vals s) then s\<lparr>ppc := PDone\<rparr> else s\<lparr>ppc := PSelect\<rparr>
      | PSelect \<Rightarrow> (emit Select s)\<lparr>ppc := (if ready e then PLock else PWhile)\<rparr>
      | PLock \<Rightarrow> (emit (Acquire TPoller) s)\<lparr>lock := Some TPoller, ppc := PRead\<rparr>
      | PRead \<Rightarrow>
          (case rd e of
             Got js \<Rightarrow> (emit Read s)\<lparr>vals := decode cfg js (vals s)\<rparr>
           | Failed n \<Rightarrow> (emit Read s)\<lparr>p_errno := n, ppc := PErrno\<rparr>
           | Zero \<Rightarrow> (emit Read s)\<lparr>ppc := PErrno\<rparr>)
      | PErrno \<Rightarrow>
          if p_errno s \<noteq> EAGAIN
          then (emit (Cerr (ReadError (p_errno s))) s)
                 \<lparr>vals := (vals s)\<lparr>hasError := True\<rparr>, ppc := PUnlock\<rparr>
          else s\<lparr>ppc := PUnlock\<rparr>
      | PUnlock \<Rightarrow> (emit (Release TPoller) s)\<lparr>lock := None, ppc := PWhile\<rparr>
      | PDone \<Rightarrow> s)"

definition step :: "config \<Rightarrow> thread \<times> env \<Rightarrow> sys \<Rightarrow> sys option" where
  "step cfg l s =
     (case fst l of
        TMain \<Rightarrow> if main_enabled s then Some (main_exec cfg (snd l) s) else None
      | TPoller \<Rightarrow> if poller_enabled s then Some (poller_exec cfg (snd l) s) else None)"

fun run :: "config \<Rightarrow> (thread \<times> env) list \<Rightarrow> sys \<Rightarrow> sys option" where
  "run cfg [] s = Some s"
| "run cfg (l # ls) s = (case step cfg l s of None \<Rightarrow> None | Some s' \<Rightarrow> run cfg ls s')"

text \<open>The messages handed to the session, in order, with where each was sent from.\<close>

fun sent :: "(thread option \<times> action) list \<Rightarrow> (origin \<times> msg \<times> nat) list" where
  "sent [] = []"
| "sent ((h, Send og m k) # tr) = (og, m, k) # sent tr"
| "sent (_ # tr) = sent tr"

definition burst :: "(origin \<times> msg \<times> nat) list" where
  "burst = map (\<lambda>(m, k). (FromBurst, m, k)) neutral"

definition after_loop :: "mpc \<Rightarrow> bool" where
  "after_loop pc = (pc = MSdLock \<or> pc = MSdSet \<or> pc = MSdJoin \<or> pc = MSdUnlock
                    \<or> pc = MClose \<or> pc = MRetCode \<or> pc = MReturn \<or> pc = MExited)"

text \<open>
  What is left of the sent messages once the leading ones sent by the delegate are
  dropped.
\<close>

definition from_tick :: "origin \<times> msg \<times> nat \<Rightarrow> bool" where
  "from_tick x = (fst x = FromTick)"

definition after_ticks :: "(origin \<times> msg \<times> nat) list \<Rightarrow> (origin \<times> msg \<times> nat) list" where
  "after_ticks xs = dropWhile from_tick xs"

text \<open>
  Who holds \<open>valuesMutex\<close> at an action: a \<open>read\<close> of the device, the diagnostic of a
  read error and a message sent by the delegate are performed by the holder; the three
  messages after the loop are sent while \<open>main\<close> does not hold it.
\<close>

definition under_lock :: "thread option \<times> action \<Rightarrow> bool" where
  "under_lock x =
     (case snd x of
        Read \<Rightarrow> fst x = Some TPoller
      | Cerr d \<Rightarrow> (case d of ReadError n \<Rightarrow> fst x = Some TPoller | _ \<Rightarrow> True)
      | Send og m k \<Rightarrow> (case og of FromTick \<Rightarrow> fst x = Some TMain
                                   | FromBurst \<Rightarrow> fst x \<noteq> Some TMain)
      | _ \<Rightarrow> True)"

section \<open>Invariants of the transition system\<close>

text \<open>
  The statements between the acquisition and the release of \<open>valuesMutex\<close>: in \<open>main\<close>
  the body of the delegate and the block of lines 187 to 191, in the reading thread the
  block of lines 114 to 150.
\<close>

definition main_cs :: "mpc \<Rightarrow> bool" where
  "main_cs pc = (pc = MTickBody \<or> pc = MTickUnlock \<or> pc = MSdSet \<or> pc = MSdJoin
                 \<or> pc = MSdUnlock)"

definition poller_cs :: "ppc \<Rightarrow> bool" where
  "poller_cs pc = (pc = PRead \<or> pc = PErrno \<or> pc = PUnlock)"

definition loop_pc :: "mpc \<Rightarrow> bool" where
  "loop_pc pc = (pc = MTrigger \<or> pc = MTickLock \<or> pc = MTickBody \<or> pc = MTickUnlock
                 \<or> pc = MBurst)"

definition before_session :: "mpc \<Rightarrow> bool" where
  "before_session pc = (pc = MArgs \<or> pc = MOpen \<or> pc = MSession)"

definition lock_inv :: "sys \<Rightarrow> bool" where
  "lock_inv s = ((lock s = Some TMain) = main_cs (mpc s)
                 \<and> (lock s = Some TPoller) = poller_cs (ppc s)
                 \<and> (if mpc s = MArgs \<or> mpc s = MOpen then ppc s = PNotStarted else True)
                 \<and> list_all under_lock (trace s))"

definition flow_inv :: "sys \<Rightarrow> bool" where
  "flow_inv s =
     ((if loop_pc (mpc s) then isRunning s = Some True
       else if before_session (mpc s) then isRunning s = None
       else if mpc s = MReturn \<or> mpc s = MExited then True
       else isRunning s \<noteq> None)
      \<and> (if isRunning s = Some True then True else sent (trace s) = [])
      \<and> after_ticks (sent (trace s))
          = (if isRunning s = Some True \<and> after_loop (mpc s) then burst else [])
      \<and> (if mpc s = MRetCode then dev s = DevClosed
         else if (mpc s = MReturn \<or> mpc s = MExited) \<and> isRunning s \<noteq> None
         then dev s = DevClosed \<and> retCode s = 0
         else True))"

text \<open>Once \<open>join\<close> has returned, and so whenever the device is closed, the reading thread has ended.\<close>

definition join_inv :: "sys \<Rightarrow> bool" where
  "join_inv s = (if mpc s = MSdUnlock \<or> mpc s = MClose \<or> mpc s = MRetCode \<or> dev s = DevClosed
                 then ppc s = PDone else True)"

section \<open>Concrete inputs\<close>

definition cfg0 :: config where
  "cfg0 = \<lparr>commandlineArguments = [''cid'' \<mapsto> ''111'', ''device'' \<mapsto> ''/dev/input/js0'',
              ''freq'' \<mapsto> ''10'', ''axis-left-updown'' \<mapsto> ''1'', ''axis-right-updown'' \<mapsto> ''3''],
            AXIS_LEFT_UPDOWN = 1, AXIS_RIGHT_UPDOWN = 3, DEVICE = ''/dev/input/js0''\<rparr>"

text \<open>Both pedals on the same axis: \<open>--axis-left-updown=1 --axis-right-updown=1\<close>.\<close>

definition cfg_same :: config where
  "cfg_same = cfg0\<lparr>AXIS_RIGHT_UPDOWN := 1\<rparr>"

definition env0 :: env where
  "env0 = \<lparr>open_ret = 3, open_errno = 0, running = True, stop = False, ready = False,
            rd = Zero\<rparr>"

definition axis_ev :: "8 word \<Rightarrow> 16 word \<Rightarrow> js_event" where
  "axis_ev n v = \<lparr>js_time = 0, js_value = v, js_type = 0x02, js_number = n\<rparr>"

definition button_ev :: "8 word \<Rightarrow> 16 word \<Rightarrow> js_event" where
  "button_ev n v = \<lparr>js_time = 0, js_value = v, js_type = 0x01, js_number = n\<rparr>"

text \<open>The device path cannot be opened (\<open>ENOENT\<close>).\<close>

definition sched_open_fail :: "(thread \<times> env) list" where
  "sched_open_fail =
     [(TMain, env0), (TMain, env0\<lparr>open_ret := - 1, open_errno := 2\<rparr>), (TMain, env0)]"

text \<open>
  The scheduler is stopped from outside before its first call; the reading thread has
  found the device readable when \<open>main\<close> takes the mutex for the shutdown.
\<close>

definition sched_deadlock :: "(thread \<times> env) list" where
  "sched_deadlock =
     [(TMain, env0), (TMain, env0), (TMain, env0), (TMain, env0\<lparr>stop := True\<rparr>), (TMain, env0),
      (TPoller, env0), (TPoller, env0\<lparr>ready := True\<rparr>),
      (TMain, env0), (TMain, env0)]"

text \<open>One call of the delegate, then a stop from outside, then the shutdown.\<close>

definition sched_one_tick :: "(thread \<times> env) list" where
  "sched_one_tick =
     [(TMain, env0), (TMain, env0), (TMain, env0),
      (TMain, env0), (TMain, env0), (TMain, env0), (TMain, env0),
      (TMain, env0\<lparr>stop := True\<rparr>), (TMain, env0),
      (TMain, env0), (TMain, env0), (TPoller, env0),
      (TMain, env0), (TMain, env0), (TMain, env0), (TMain, env0), (TMain, env0)]"

text \<open>
  The reading thread reads a press of button 0 and then gets \<open>ENODEV\<close>; the delegate
  runs once afterwards and stops the scheduler.
\<close>

definition sched_read_error :: "(thread \<times> env) list" where
  "sched_read_error =
     [(TMain, env0), (TMain, env0),
      (TPoller, env0), (TPoller, env0\<lparr>ready := True\<rparr>), (TPoller, env0),
      (TPoller, env0\<lparr>rd := Got (button_ev 0 1)\<rparr>), (TPoller, env0\<lparr>rd := Failed 19\<rparr>),
      (TPoller, env0), (TPoller, env0), (TPoller, env0),
      (TMain, env0), (TMain, env0), (TMain, env0), (TMain, env0), (TMain, env0), (TMain, env0),
      (TMain, env0), (TMain, env0), (TMain, env0), (TMain, env0), (TMain, env0), (TMain, env0),
      (TMain, env0)]"

text \<open>\<open>od4.isRunning()\<close> is false.\<close>

definition sched_not_running :: "(thread \<times> env) list" where
  "sched_not_running =
     [(TMain, env0), (TMain, env0), (TMain, env0\<lparr>running := False\<rparr>),
      (TMain, env0), (TMain, env0), (TPoller, env0),
      (TMain, env0), (TMain, env0), (TMain, env0), (TMain, env0), (TMain, env0)]"

text \<open>The state in which the reading thread has just set \<open>hasError\<close>.\<close>

text \<open>The state in which \<open>main\<close> has taken the mutex for the first call of the delegate.\<close>

definition s_tick :: sys where
  "s_tick = the (run cfg0 (take 5 sched_one_tick) init)"

text \<open>The state in which the reading thread has taken the mutex and is about to read.\<close>

definition s_read :: sys where
  "s_read = the (run cfg0 (take 5 sched_read_error) init)"

definition s_err :: sys where
  "s_err = the (run cfg0 (take 8 sched_read_error) init)"

section \<open>Rounding to single precision\<close>

lemma sint16_range: "- 32768 \<le> sint (v :: 16 word) \<and> sint v < 32768"
  using sint_ge [of v] sint_lt [of v] by simp

lemma sint_scast_16_32: "sint (scast (v :: 16 word) :: 32 word) = sint v"
  by (simp add: sint_up_scast is_up)

lemma numerator_val: "sint (scast (v :: 16 word) - MIN_AXES_VALUE) = sint v + 32768"
proof -
  have "sint (scast v - MIN_AXES_VALUE) = signed_take_bit 31 (sint (scast v :: 32 word) - sint MIN_AXES_VALUE)"
    by (simp add: sint_word_ariths)
  also have "\<dots> = signed_take_bit 31 (sint v + 32768)"
    by (simp add: sint_scast_16_32 MIN_AXES_VALUE_def)
  also have "\<dots> = sint v + 32768"
    using sint16_range [of v] by (intro signed_take_bit_int_eq_self) auto
  finally show ?thesis .
qed

lemma denominator_val: "uint (MAX_AXES_VALUE - MIN_AXES_VALUE) = 65535"
  by (simp add: MAX_AXES_VALUE_def MIN_AXES_VALUE_def)


lemma rne_of_int: "rne (of_int n) = n"
  by (simp add: rne_def)

lemma rne_err: "\<bar>of_int (rne q) - q\<bar> \<le> 1 / 2"
proof -
  have "of_int \<lfloor>q\<rfloor> \<le> q" "q < of_int \<lfloor>q\<rfloor> + 1" by linarith+
  then show ?thesis unfolding rne_def Let_def by (auto simp: abs_le_iff)
qed

lemma rne_le: "q \<le> of_int n \<Longrightarrow> rne q \<le> n"
proof -
  assume a: "q \<le> of_int n"
  show ?thesis
  proof (cases "q = of_int n")
    case True then show ?thesis by (simp add: rne_of_int)
  next
    case False
    with a have "q < of_int n" by simp
    then have "\<lfloor>q\<rfloor> < n" by (simp add: floor_less_iff)
    then show ?thesis unfolding rne_def Let_def by auto
  qed
qed

lemma rne_ge: "of_int n \<le> q \<Longrightarrow> n \<le> rne q"
proof -
  assume "of_int n \<le> q"
  then have "n \<le> \<lfloor>q\<rfloor>" by (simp add: le_floor_iff)
  then show ?thesis unfolding rne_def Let_def by auto
qed

lemma bitlen_powi_bounds:
  assumes "0 < p"
  shows "(2::rat) powi (bitlen p - 1) \<le> of_int p" "of_int p < (2::rat) powi (bitlen p)"
proof -
  from bitlen_bounds [OF assms]
  have lo: "2 ^ nat (bitlen p - 1) \<le> p" and hi: "p < 2 ^ nat (bitlen p)" by auto
  have "bitlen p \<noteq> 0" using assms by (simp add: bitlen_eq_zero_iff)
  then have pos: "0 < bitlen p" using bitlen_nonneg [of p] by linarith
  have "(2::rat) powi (bitlen p - 1) = 2 ^ nat (bitlen p - 1)"
    using pos by (simp add: power_int_nonneg_exp)
  also have "\<dots> = of_int (2 ^ nat (bitlen p - 1))" by simp
  also have "\<dots> \<le> of_int p" using lo by (simp only: of_int_le_iff)
  finally show "(2::rat) powi (bitlen p - 1) \<le> of_int p" .
  have "(of_int p :: rat) < of_int (2 ^ nat (bitlen p))" using hi by (simp only: of_int_less_iff)
  also have "\<dots> = (2::rat) powi (bitlen p)" using pos by (simp add: power_int_nonneg_exp)
  finally show "of_int p < (2::rat) powi (bitlen p)" .
qed

lemma ilog2_bounds:
  assumes "x \<noteq> 0"
  shows "2 powi (ilog2 x) \<le> \<bar>x\<bar>" "\<bar>x\<bar> < 2 powi (ilog2 x + 1)"
proof -
  obtain p q where pq: "quotient_of \<bar>x\<bar> = (p, q)" by (cases "quotient_of \<bar>x\<bar>")
  then have q: "0 < q" and x: "\<bar>x\<bar> = of_int p / of_int q"
    by (auto dest: quotient_of_denom_pos quotient_of_div)
  have p: "0 < p"
  proof -
    have "0 < \<bar>x\<bar>" using assms by simp
    then have "0 < (of_int p :: rat) / of_int q" using x by simp
    then show ?thesis using q by (simp add: zero_less_divide_iff)
  qed
  define d where "d = bitlen p - bitlen q"
  have il: "ilog2 x = (if 2 powi d \<le> \<bar>x\<bar> then d else d - 1)"
    by (simp add: ilog2_def pq d_def Let_def)
  note bp = bitlen_powi_bounds [OF p] and bq = bitlen_powi_bounds [OF q]
  have qpos: "0 < (of_int q :: rat)" using q by simp
  have lower: "(2::rat) powi (d - 1) \<le> \<bar>x\<bar>"
  proof -
    have "(2::rat) powi (d - 1) * of_int q \<le> 2 powi (d - 1) * 2 powi (bitlen q)"
      using bq(2) by (intro mult_left_mono) auto
    also have "\<dots> = 2 powi (bitlen p - 1)"
      by (simp add: d_def power_int_add [symmetric])
    also have "\<dots> \<le> of_int p" by (rule bp(1))
    finally show ?thesis using qpos by (simp add: x pos_le_divide_eq)
  qed
  have upper: "\<bar>x\<bar> < (2::rat) powi (d + 1)"
  proof -
    have "of_int p < (2::rat) powi (bitlen p)" by (rule bp(2))
    also have "\<dots> = 2 powi (d + 1) * 2 powi (bitlen q - 1)"
      by (simp add: d_def power_int_add [symmetric])
    also have "\<dots> \<le> 2 powi (d + 1) * of_int q"
      using bq(1) by (intro mult_left_mono) auto
    finally show ?thesis using qpos by (simp add: x pos_divide_less_eq)
  qed
  show "2 powi (ilog2 x) \<le> \<bar>x\<bar>" using lower by (simp add: il)
  show "\<bar>x\<bar> < 2 powi (ilog2 x + 1)" using upper by (auto simp: il not_le)
qed

lemma ilog2_le:
  assumes "x \<noteq> 0" and "\<bar>x\<bar> \<le> 2 powi n"
  shows "ilog2 x \<le> n"
proof (rule ccontr)
  assume "\<not> ilog2 x \<le> n"
  then have "n < ilog2 x" by simp
  then have "(2::rat) powi n < 2 powi (ilog2 x)" by (intro power_int_strict_increasing) auto
  with ilog2_bounds(1) [OF assms(1)] assms(2) show False by linarith
qed

lemma ilog2_less:
  assumes "x \<noteq> 0" and "\<bar>x\<bar> < 2 powi n"
  shows "ilog2 x < n"
proof (rule ccontr)
  assume "\<not> ilog2 x < n"
  then have "n \<le> ilog2 x" by simp
  then have "(2::rat) powi n \<le> 2 powi (ilog2 x)" by (intro power_int_increasing) auto
  with ilog2_bounds(1) [OF assms(1)] assms(2) show False by linarith
qed

lemma ilog2_ge:
  assumes "x \<noteq> 0" and "2 powi n \<le> \<bar>x\<bar>"
  shows "n \<le> ilog2 x"
proof (rule ccontr)
  assume "\<not> n \<le> ilog2 x"
  then have "ilog2 x + 1 \<le> n" by simp
  then have "(2::rat) powi (ilog2 x + 1) \<le> 2 powi n" by (intro power_int_increasing) auto
  with ilog2_bounds(2) [OF assms(1)] assms(2) show False by linarith
qed

text \<open>The unit in the last place used for \<open>x\<close>.\<close>

lemma f32_round_unfold:
  assumes "x \<noteq> 0"
  shows "f32_round x = of_int (rne (x / 2 powi (max (ilog2 x) (- 126) - 23)))
                         * 2 powi (max (ilog2 x) (- 126) - 23)"
  using assms by (simp add: f32_round_def Let_def)

lemma f32_round_abs_le:
  assumes n: "- 126 \<le> n" and x: "\<bar>x\<bar> \<le> 2 powi n"
  shows "\<bar>f32_round x\<bar> \<le> 2 powi n"
proof (cases "x = 0")
  case True
  then show ?thesis by (simp add: f32_round_def)
next
  case False
  define e where "e = max (ilog2 x) (- 126)"
  define u :: rat where "u = 2 powi (e - 23)"
  define N :: int where "N = 2 ^ nat (n - e + 23)"
  have e: "e \<le> n" using ilog2_le [OF False x] n by (simp add: e_def)
  have u: "0 < u" by (simp add: u_def)
  have N: "of_int N * u = 2 powi n"
  proof -
    have "(of_int N :: rat) = 2 powi (n - e + 23)"
      using e by (simp add: N_def power_int_nonneg_exp)
    then show ?thesis by (simp add: u_def power_int_add [symmetric])
  qed
  have fr: "f32_round x = of_int (rne (x / u)) * u"
    using f32_round_unfold [OF False] by (simp add: e_def u_def)
  have "\<bar>x\<bar> \<le> of_int N * u" using x N by simp
  then have "x \<le> of_int N * u" "of_int (- N) * u \<le> x"
    by (simp_all add: abs_le_iff)
  then have "x / u \<le> of_int N" "of_int (- N) \<le> x / u"
    using u by (simp_all only: pos_divide_le_eq pos_le_divide_eq)
  then have "rne (x / u) \<le> N" "- N \<le> rne (x / u)"
    by (auto intro: rne_le rne_ge)
  then have "\<bar>rne (x / u)\<bar> \<le> N" by simp
  then have "\<bar>(of_int (rne (x / u)) :: rat)\<bar> \<le> of_int N"
    by (metis of_int_abs of_int_le_iff)
  then have "\<bar>of_int (rne (x / u)) * u\<bar> \<le> of_int N * u"
    using u by (simp add: abs_mult mult_right_mono)
  then show ?thesis by (simp add: fr N)
qed

lemma f32_round_nonneg:
  assumes "0 \<le> x"
  shows "0 \<le> f32_round x"
proof (cases "x = 0")
  case True
  then show ?thesis by (simp add: f32_round_def)
next
  case False
  define u :: rat where "u = 2 powi (max (ilog2 x) (- 126) - 23)"
  have u: "0 < u" by (simp add: u_def)
  have "of_int 0 \<le> x / u" using assms u by simp
  then have "0 \<le> rne (x / u)" by (rule rne_ge)
  then show ?thesis using u f32_round_unfold [OF False] by (simp add: u_def)
qed

lemma f32_round_err:
  assumes n: "- 126 \<le> n" and x: "\<bar>x\<bar> \<le> 2 powi n"
  shows "\<bar>f32_round x - x\<bar> \<le> 2 powi (n - 24)"
proof (cases "x = 0")
  case True
  then show ?thesis by (simp add: f32_round_def)
next
  case False
  define e where "e = max (ilog2 x) (- 126)"
  define u :: rat where "u = 2 powi (e - 23)"
  have e: "e \<le> n" using ilog2_le [OF False x] n by (simp add: e_def)
  have u: "0 < u" by (simp add: u_def)
  have fr: "f32_round x = of_int (rne (x / u)) * u"
    using f32_round_unfold [OF False] by (simp add: e_def u_def)
  have "f32_round x - x = (of_int (rne (x / u)) - x / u) * u"
    using u by (simp add: fr algebra_simps)
  then have "\<bar>f32_round x - x\<bar> = \<bar>of_int (rne (x / u)) - x / u\<bar> * u"
    using u by (simp add: abs_mult)
  also have "\<dots> \<le> (1 / 2) * u"
    using u rne_err [of "x / u"] by (intro mult_right_mono) auto
  also have "\<dots> = 2 powi (e - 24)"
  proof -
    have "(2::rat) powi (e - 24 + 1) = 2 powi (e - 24) * 2 powi 1"
      by (rule power_int_add) simp
    then show ?thesis by (simp add: u_def)
  qed
  also have "\<dots> \<le> 2 powi (n - 24)"
    using e by (intro power_int_increasing) auto
  finally show ?thesis .
qed

lemma f32_round_int:
  assumes "\<bar>k\<bar> < 2 ^ 24"
  shows "f32_round (of_int k) = of_int k"
proof (cases "k = 0")
  case True
  then show ?thesis by (simp add: f32_round_def)
next
  case False
  define x :: rat where "x = of_int k"
  have x0: "x \<noteq> 0" using False by (simp add: x_def)
  have "\<bar>x\<bar> < 2 powi 24"
  proof -
    have "\<bar>x\<bar> = of_int \<bar>k\<bar>" by (simp add: x_def)
    also have "\<dots> < of_int (2 ^ 24)" using assms by (simp only: of_int_less_iff)
    finally show ?thesis by simp
  qed
  then have hi: "ilog2 x < 24" by (rule ilog2_less [OF x0])
  have "(1::rat) \<le> of_int \<bar>k\<bar>" using False by (simp only: of_int_1_le_iff)
  then have "2 powi 0 \<le> \<bar>x\<bar>" by (simp add: x_def)
  then have lo: "0 \<le> ilog2 x" by (rule ilog2_ge [OF x0])
  define e where "e = ilog2 x"
  define M :: int where "M = 2 ^ nat (23 - e)"
  have emax: "max (ilog2 x) (- 126) = e" using lo by (simp add: e_def)
  have M: "(of_int M :: rat) * 2 powi (e - 23) = 1"
  proof -
    have "(of_int M :: rat) = 2 powi (23 - e)"
      using hi by (simp add: M_def e_def power_int_nonneg_exp)
    then show ?thesis by (simp add: power_int_add [symmetric])
  qed
  have q: "x / 2 powi (e - 23) = of_int (k * M)"
  proof -
    have "x = of_int (k * M) * 2 powi (e - 23)"
      using M by (simp add: x_def mult.assoc)
    then show ?thesis by simp
  qed
  have "f32_round x = of_int (k * M) * 2 powi (e - 23)"
    using f32_round_unfold [OF x0] by (simp only: emax q rne_of_int)
  also have "\<dots> = x" using M by (simp add: x_def mult.assoc)
  finally show ?thesis by (simp add: x_def)
qed


lemma percent_of_eq: "percent_of v = f32_round (of_int (sint v + 32768) / 65535)"
proof -
  have r: "- 32768 \<le> sint v" "sint v < 32768" using sint16_range [of v] by auto
  have "f32_of_int32 (scast v - MIN_AXES_VALUE) = of_int (sint v + 32768)"
    unfolding f32_of_int32_def numerator_val using r by (intro f32_round_int) simp
  moreover have "f32_of_uint32 (MAX_AXES_VALUE - MIN_AXES_VALUE) = 65535"
    unfolding f32_of_uint32_def denominator_val using f32_round_int [of 65535] by simp
  ultimately show ?thesis by (simp add: percent_of_def f32_div_def)
qed

lemma pedal_of_formula:
  "pedal_of v = f32_sub 1 (f32_mul 2 (f32_div (of_int (sint v + 32768)) 65535))"
  by (simp add: pedal_of_def percent_of_eq f32_div_def)

lemma percent_of_bounds:
  "0 \<le> percent_of v" "percent_of v \<le> 1"
  "\<bar>percent_of v - of_int (sint v + 32768) / 65535\<bar> \<le> 1 / 2 ^ 24"
proof -
  define k where "k = sint v + 32768"
  define x :: rat where "x = of_int k / 65535"
  have r: "0 \<le> k" "k \<le> 65535" using sint16_range [of v] by (auto simp: k_def)
  have "(0::rat) \<le> of_int k" using r(1) by (rule of_int_nonneg)
  then have x0: "0 \<le> x" unfolding x_def by (rule divide_nonneg_nonneg) simp
  have "(of_int k :: rat) \<le> of_int 65535" using r(2) by (simp only: of_int_le_iff)
  then have "x \<le> of_int 65535 / 65535" unfolding x_def by (rule divide_right_mono) simp
  then have x1: "x \<le> 1" by simp
  have ax: "\<bar>x\<bar> \<le> 2 powi 0" using x0 x1 by simp
  show "0 \<le> percent_of v" using f32_round_nonneg [OF x0] by (simp add: percent_of_eq x_def k_def)
  show "percent_of v \<le> 1"
    using f32_round_abs_le [OF _ ax] by (simp add: percent_of_eq x_def k_def)
  show "\<bar>percent_of v - of_int (sint v + 32768) / 65535\<bar> \<le> 1 / 2 ^ 24"
    using f32_round_err [OF _ ax] by (simp add: percent_of_eq x_def k_def power_int_minus_divide)
qed

lemma pedal_of_bounds:
  "- 1 \<le> pedal_of v" "pedal_of v \<le> 1"
  "\<bar>pedal_of v - (1 - 2 * of_int (sint v + 32768) / 65535)\<bar> \<le> 5 / 2 ^ 24"
proof -
  define x :: rat where "x = of_int (sint v + 32768) / 65535"
  define p where "p = percent_of v"
  define t where "t = f32_round (2 * p)"
  have p: "0 \<le> p" "p \<le> 1" "\<bar>p - x\<bar> \<le> 1 / 2 ^ 24"
    using percent_of_bounds [of v] by (simp_all add: p_def x_def)
  have a2: "\<bar>2 * p\<bar> \<le> 2 powi 1" using p by simp
  have t0: "0 \<le> t" unfolding t_def using p by (intro f32_round_nonneg) simp
  have t2: "t \<le> 2" using f32_round_abs_le [OF _ a2] by (simp add: t_def)
  have te: "\<bar>t - 2 * p\<bar> \<le> 1 / 2 ^ 23"
    using f32_round_err [OF _ a2] by (simp add: t_def power_int_minus_divide)
  have a1: "\<bar>1 - t\<bar> \<le> 2 powi 0" using t0 t2 by simp
  have r: "pedal_of v = f32_round (1 - t)"
    by (simp add: pedal_of_def f32_sub_def f32_mul_def t_def p_def)
  have rb: "\<bar>pedal_of v\<bar> \<le> 1" using f32_round_abs_le [OF _ a1] by (simp add: r)
  show "- 1 \<le> pedal_of v" "pedal_of v \<le> 1" using rb by simp_all
  have re: "\<bar>pedal_of v - (1 - t)\<bar> \<le> 1 / 2 ^ 24"
    using f32_round_err [OF _ a1] by (simp add: r power_int_minus_divide)
  have "\<bar>pedal_of v - (1 - 2 * x)\<bar> \<le> 5 / 2 ^ 24"
    using re te p(3) unfolding abs_le_iff by (simp_all; linarith)
  then show "\<bar>pedal_of v - (1 - 2 * of_int (sint v + 32768) / 65535)\<bar> \<le> 5 / 2 ^ 24"
    by (simp add: x_def)
qed

lemma pedal_of_values:
  "pedal_of (- 32768) = 1" "pedal_of 32767 = - 1" "pedal_of 0 = - 1 / 65536"
  by code_simp+

lemma decode_axis:
  assumes "js_type js AND NOT JS_EVENT_INIT = JS_EVENT_AXIS"
  shows "decode cfg js s =
    s\<lparr>left := (if AXIS_LEFT_UPDOWN cfg = js_number js then pedal_of (js_value js) else left s),
      right := (if AXIS_RIGHT_UPDOWN cfg = js_number js then pedal_of (js_value js) else right s)\<rparr>"
  using assms by (simp add: decode_def Let_def)

lemma decode_button:
  assumes "js_type js AND NOT JS_EVENT_INIT = JS_EVENT_BUTTON"
  shows "decode cfg js s = (if js_value js = 1 then s\<lparr>state := uint (js_number js)\<rparr> else s)"
  using assms by (simp add: decode_def Let_def JS_EVENT_AXIS_def JS_EVENT_BUTTON_def)

lemma decode_hasError: "hasError (decode cfg js s) = hasError s"
  by (simp add: decode_def Let_def)

section \<open>The decoder\<close>

text \<open>
  Claim C1, as amended. An axis event (also one with the \<open>JS_EVENT_INIT\<close> bit set) whose
  number equals \<open>AXIS_LEFT_UPDOWN\<close> sets \<open>left\<close>, and one whose number equals
  \<open>AXIS_RIGHT_UPDOWN\<close> sets \<open>right\<close>, to the single-precision value of
  \<open>1 - 2 * (v + 32768) / 65535\<close>, where \<open>v\<close> is the signed 16-bit value of the event.
  That value is within \<open>5 / 2 ^ 24\<close> of the exact quotient and lies in \<open>[-1, 1]\<close>; it is
  \<open>1\<close> at \<open>v = -32768\<close>, \<open>-1\<close> at \<open>v = 32767\<close> and \<open>-1 / 65536\<close> at \<open>v = 0\<close>. \<open>state\<close> and
  \<open>hasError\<close> are unchanged, and a pedal is unchanged when the number of the event
  differs from its configured index. When both indices are equal, one event sets both
  pedals.
\<close>

theorem axis_event_sets_pedal:
  assumes "js_type js AND NOT JS_EVENT_INIT = JS_EVENT_AXIS"
  shows "(js_number js = AXIS_LEFT_UPDOWN cfg \<longrightarrow> left (decode cfg js s) = pedal_of (js_value js))
       \<and> (js_number js = AXIS_RIGHT_UPDOWN cfg \<longrightarrow> right (decode cfg js s) = pedal_of (js_value js))
       \<and> (js_number js \<noteq> AXIS_LEFT_UPDOWN cfg \<longrightarrow> left (decode cfg js s) = left s)
       \<and> (js_number js \<noteq> AXIS_RIGHT_UPDOWN cfg \<longrightarrow> right (decode cfg js s) = right s)
       \<and> state (decode cfg js s) = state s \<and> hasError (decode cfg js s) = hasError s
       \<and> pedal_of (js_value js)
           = f32_sub 1 (f32_mul 2 (f32_div (of_int (sint (js_value js) + 32768)) 65535))
       \<and> \<bar>pedal_of (js_value js) - (1 - 2 * of_int (sint (js_value js) + 32768) / 65535)\<bar>
           \<le> 5 / 2 ^ 24
       \<and> - 1 \<le> pedal_of (js_value js) \<and> pedal_of (js_value js) \<le> 1
       \<and> pedal_of (- 32768) = 1 \<and> pedal_of 32767 = - 1 \<and> pedal_of 0 = - 1 / 65536"
  using pedal_of_bounds [of "js_value js"] pedal_of_formula [of "js_value js"] pedal_of_values
  by (auto simp: decode_axis [OF assms])

theorem axis_event_sets_pedal_witness:
  "left (decode cfg0 (axis_ev 1 0) shared_init) = - 1 / 65536
   \<and> right (decode cfg0 (axis_ev 1 0) shared_init) = 0
   \<and> right (decode cfg0 (axis_ev 3 32767) shared_init) = - 1
   \<and> left (decode cfg0 (axis_ev 3 32767) shared_init) = 0"
proof -
  have a: "js_type (axis_ev 1 0) AND NOT JS_EVENT_INIT = JS_EVENT_AXIS"
    and b: "js_type (axis_ev 3 32767) AND NOT JS_EVENT_INIT = JS_EVENT_AXIS"
    by (simp_all add: axis_ev_def JS_EVENT_INIT_def JS_EVENT_AXIS_def)
  show ?thesis
    using axis_event_sets_pedal [OF a, of cfg0 shared_init]
      axis_event_sets_pedal [OF b, of cfg0 shared_init]
    by (simp add: axis_ev_def cfg0_def shared_init_def)
qed

text \<open>
  Claim C1 as stated fails where it says that all other fields are unchanged: with both
  pedals configured on axis 1, an event of axis 1 with value \<open>-32768\<close> matches the left
  index and changes \<open>right\<close> from \<open>0\<close> to \<open>1\<close> as well.
\<close>

theorem axis_same_index_counterexample:
  "js_type (axis_ev 1 (- 32768)) AND NOT JS_EVENT_INIT = JS_EVENT_AXIS
   \<and> js_number (axis_ev 1 (- 32768)) = AXIS_LEFT_UPDOWN cfg_same
   \<and> right shared_init = 0
   \<and> right (decode cfg_same (axis_ev 1 (- 32768)) shared_init) = 1"
  by code_simp

text \<open>
  Claim C6. A button event (also one with the \<open>JS_EVENT_INIT\<close> bit set) with value \<open>1\<close>
  sets \<open>state\<close> to the number of the button and changes nothing else; one with value
  \<open>0\<close> changes nothing. So after a press of button \<open>k\<close>, a release leaves \<open>state = k\<close>:
  \<open>state\<close> is not cleared on release.
\<close>

theorem button_press_sticks:
  assumes "js_type js AND NOT JS_EVENT_INIT = JS_EVENT_BUTTON"
  shows "(js_value js = 1 \<longrightarrow> decode cfg js s = s\<lparr>state := uint (js_number js)\<rparr>)
       \<and> (js_value js = 0 \<longrightarrow> decode cfg js s = s)
       \<and> (js_value js = 1 \<longrightarrow> js_type js' AND NOT JS_EVENT_INIT = JS_EVENT_BUTTON \<longrightarrow>
            js_value js' = 0 \<longrightarrow> state (decode cfg js' (decode cfg js s)) = uint (js_number js))"
  by (simp add: decode_button assms)

theorem button_press_sticks_witness:
  "decode cfg0 (button_ev 3 1) shared_init = shared_init\<lparr>state := 3\<rparr>
   \<and> decode cfg0 (button_ev 3 0) (shared_init\<lparr>state := 3\<rparr>) = shared_init\<lparr>state := 3\<rparr>
   \<and> state (decode cfg0 (button_ev 3 0) (decode cfg0 (button_ev 3 1) shared_init)) = 3"
proof -
  have a: "js_type (button_ev 3 1) AND NOT JS_EVENT_INIT = JS_EVENT_BUTTON"
    and b: "js_type (button_ev 3 0) AND NOT JS_EVENT_INIT = JS_EVENT_BUTTON"
    by (simp_all add: button_ev_def JS_EVENT_INIT_def JS_EVENT_BUTTON_def)
  show ?thesis
    using button_press_sticks [OF a, of cfg0 shared_init "button_ev 3 0"]
      button_press_sticks [OF b, of cfg0 "shared_init\<lparr>state := 3\<rparr>" "button_ev 3 0"] b
    by (simp add: button_ev_def)
qed

section \<open>Properties of the transition system\<close>

lemmas exec_defs = main_exec_def poller_exec_def emit_def emits_def
  trigger_head_def trigger_after_def

lemmas pc_defs = main_cs_def poller_cs_def loop_pc_def before_session_def after_loop_def

lemma step_main: "step cfg (TMain, e) s = (if main_enabled s then Some (main_exec cfg e s) else None)"
  by (simp add: step_def)

lemma step_poller:
  "step cfg (TPoller, e) s = (if poller_enabled s then Some (poller_exec cfg e s) else None)"
  by (simp add: step_def)

lemma step_cases:
  assumes "step cfg l s = Some s'"
  obtains e where "l = (TMain, e)" "main_enabled s" "s' = main_exec cfg e s"
  | e where "l = (TPoller, e)" "poller_enabled s" "s' = poller_exec cfg e s"
  using assms by (cases l; cases "fst l") (auto simp: step_def split: if_splits)

lemma disabled_no_step:
  "\<not> main_enabled s \<Longrightarrow> \<not> poller_enabled s \<Longrightarrow> step cfg l s = None"
  by (cases "fst l") (simp_all add: step_def)

lemma run_induct_inv:
  assumes "run cfg ls s = Some s'" and "P s"
    and "\<And>l a b. P a \<Longrightarrow> step cfg l a = Some b \<Longrightarrow> P b"
  shows "P s'"
  using assms(1,2)
proof (induction ls arbitrary: s)
  case Nil
  then show ?case by simp
next
  case (Cons l ls)
  then show ?case by (auto split: option.splits intro: assms(3))
qed

subsection \<open>The error flag\<close>

lemma main_exec_hasError: "hasError (vals s) \<Longrightarrow> hasError (vals (main_exec cfg e s))"
  by (cases "mpc s") (auto simp: exec_defs split: prod.splits)

lemma poller_exec_hasError: "hasError (vals s) \<Longrightarrow> hasError (vals (poller_exec cfg e s))"
  by (cases "ppc s") (auto simp: exec_defs decode_hasError split: read_result.splits)

lemma step_hasError: "step cfg l s = Some s' \<Longrightarrow> hasError (vals s) \<Longrightarrow> hasError (vals s')"
  by (erule step_cases) (simp_all add: main_exec_hasError poller_exec_hasError)

lemma run_hasError: "run cfg ls s = Some s' \<Longrightarrow> hasError (vals s) \<Longrightarrow> hasError (vals s')"
  by (erule run_induct_inv) (auto intro: step_hasError)

subsection \<open>Sent messages\<close>

lemma sent_append: "sent (xs @ ys) = sent xs @ sent ys"
  by (induction xs rule: sent.induct) auto

lemma emits_sends:
  "emits (map (\<lambda>(m, k). Send og m k) out) s
   = s\<lparr>trace := trace s @ map (\<lambda>(m, k). (lock s, Send og m k)) out\<rparr>"
proof -
  have "map (\<lambda>a. (lock s, a)) (map (\<lambda>(m, k). Send og m k) out)
        = map (\<lambda>(m, k). (lock s, Send og m k)) out"
    by (induction out) auto
  then show ?thesis by (simp only: emits_def)
qed

lemma sent_sends: "sent (map (\<lambda>(m, k). (h, Send og m k)) out) = map (\<lambda>(m, k). (og, m, k)) out"
  by (induction out) auto

lemma after_ticks_append_ticks:
  "after_ticks xs = [] \<Longrightarrow> after_ticks (xs @ map (Pair FromTick) out) = []"
  by (auto simp: after_ticks_def dropWhile_eq_Nil_conv from_tick_def)

lemma burst_eq:
  "burst = [(FromBurst, PedalPositionRequest 0, 0), (FromBurst, PedalPositionRequest 0, 10),
            (FromBurst, SwitchStateRequest (- 1), 99)]"
  by (simp add: burst_def neutral_def send_def)

lemma after_ticks_append_burst:
  "after_ticks xs = [] \<Longrightarrow> after_ticks (xs @ map (Pair FromBurst) neutral) = burst"
  by (simp add: after_ticks_def dropWhile_eq_Nil_conv dropWhile_append1 dropWhile_append2
      burst_eq neutral_def send_def from_tick_def)

lemma under_lock_sends:
  "list_all under_lock (map (\<lambda>(m, k). (Some TMain, Send FromTick m k)) out)"
  by (induction out) (auto simp: under_lock_def)

lemma under_lock_burst:
  "h \<noteq> Some TMain \<Longrightarrow> list_all under_lock (map (\<lambda>(m, k). (h, Send FromBurst m k)) out)"
  by (induction out) (auto simp: under_lock_def)

subsection \<open>The mutex\<close>

lemma lock_inv_init: "lock_inv init"
  by (simp add: lock_inv_def init_def pc_defs)

lemma lock_inv_main:
  assumes "lock_inv s" "main_enabled s"
  shows "lock_inv (main_exec cfg e s)"
proof (cases "mpc s")
  case MTickBody
  with assms show ?thesis
    by (auto simp: lock_inv_def main_exec_def emits_sends pc_defs under_lock_sends
        split: prod.splits)
next
  case MBurst
  with assms show ?thesis
    by (auto simp: lock_inv_def main_exec_def emits_sends pc_defs under_lock_burst)
qed (use assms in \<open>auto simp: lock_inv_def main_enabled_def main_exec_def emit_def
      trigger_head_def trigger_after_def pc_defs under_lock_def\<close>)

lemma lock_inv_poller:
  assumes "lock_inv s" "poller_enabled s"
  shows "lock_inv (poller_exec cfg e s)"
  using assms
  by (cases "ppc s")
    (auto simp: lock_inv_def poller_enabled_def poller_exec_def emit_def pc_defs under_lock_def
      split: read_result.splits)

lemma lock_inv_step: "lock_inv s \<Longrightarrow> step cfg l s = Some s' \<Longrightarrow> lock_inv s'"
  by (erule step_cases) (simp_all add: lock_inv_main lock_inv_poller)

lemma lock_inv_run: "run cfg ls init = Some s \<Longrightarrow> lock_inv s"
  by (erule run_induct_inv) (auto intro: lock_inv_init lock_inv_step)

lemma join_inv_init: "join_inv init"
  by (simp add: join_inv_def init_def)

lemma join_inv_main:
  assumes "join_inv s" "main_enabled s"
  shows "join_inv (main_exec cfg e s)"
  using assms
  by (cases "mpc s")
    (auto simp: join_inv_def main_enabled_def main_exec_def emit_def emits_def
      trigger_head_def trigger_after_def split: prod.splits if_splits)

lemma join_inv_poller:
  assumes "join_inv s" "poller_enabled s"
  shows "join_inv (poller_exec cfg e s)"
proof -
  have "mpc (poller_exec cfg e s) = mpc s" "dev (poller_exec cfg e s) = dev s"
    by (cases "ppc s"; simp add: poller_exec_def emit_def split: read_result.splits)+
  moreover have "ppc s \<noteq> PDone" using assms(2) by (auto simp: poller_enabled_def)
  ultimately show ?thesis using assms(1) by (simp add: join_inv_def split: if_splits)
qed

lemma join_inv_step: "join_inv s \<Longrightarrow> step cfg l s = Some s' \<Longrightarrow> join_inv s'"
  by (erule step_cases) (simp_all add: join_inv_main join_inv_poller)

text \<open>
  The device is closed only after the reading thread has ended: in a reachable state
  with the device closed, the reading thread takes no further step, so it reads no more.
\<close>

lemma closed_after_join:
  assumes "run cfg ls init = Some s" and "dev s = DevClosed"
  shows "ppc s = PDone \<and> \<not> poller_enabled s"
proof -
  have "join_inv s"
    using assms(1) by (rule run_induct_inv) (auto intro: join_inv_init join_inv_step)
  with assms(2) show ?thesis by (simp add: join_inv_def poller_enabled_def)
qed

subsection \<open>The order of the messages\<close>

lemma flow_inv_init: "flow_inv init"
  by (simp add: flow_inv_def init_def pc_defs after_ticks_def)

lemma flow_inv_main:
  assumes "flow_inv s" "main_enabled s"
  shows "flow_inv (main_exec cfg e s)"
proof (cases "mpc s")
  case MTickBody
  with assms show ?thesis
    by (auto simp: flow_inv_def main_exec_def emits_sends pc_defs sent_append sent_sends
        after_ticks_append_ticks split: prod.splits)
next
  case MBurst
  with assms show ?thesis
    by (auto simp: flow_inv_def main_exec_def emits_sends pc_defs sent_append sent_sends
        after_ticks_append_burst)
qed (use assms in \<open>auto simp: flow_inv_def main_enabled_def main_exec_def emit_def
      trigger_head_def trigger_after_def pc_defs sent_append\<close>)

lemma poller_exec_frame:
  "mpc (poller_exec cfg e s) = mpc s" "isRunning (poller_exec cfg e s) = isRunning s"
  "dev (poller_exec cfg e s) = dev s" "retCode (poller_exec cfg e s) = retCode s"
  "sent (trace (poller_exec cfg e s)) = sent (trace s)"
  by (cases "ppc s"; simp add: poller_exec_def emit_def sent_append split: read_result.splits)+

lemma flow_inv_poller: "flow_inv s \<Longrightarrow> flow_inv (poller_exec cfg e s)"
  unfolding flow_inv_def poller_exec_frame .

lemma flow_inv_step: "flow_inv s \<Longrightarrow> step cfg l s = Some s' \<Longrightarrow> flow_inv s'"
  by (erule step_cases) (simp_all add: flow_inv_main flow_inv_poller)

lemma flow_inv_run: "run cfg ls init = Some s \<Longrightarrow> flow_inv s"
  by (erule run_induct_inv) (auto intro: flow_inv_init flow_inv_step)

lemma run_append:
  "run cfg (xs @ ys) s = (case run cfg xs s of None \<Rightarrow> None | Some s' \<Rightarrow> run cfg ys s')"
  by (induction xs arbitrary: s) (auto split: option.splits)

lemma drain_events:
  assumes "ppc s = PRead"
  shows "run cfg (map (\<lambda>ev. (TPoller, e\<lparr>rd := Got ev\<rparr>)) evs) s
         = Some (s\<lparr>vals := fold (decode cfg) evs (vals s),
                   trace := trace s @ replicate (length evs) (lock s, Read)\<rparr>)"
  using assms
proof (induction evs arbitrary: s)
  case Nil
  then show ?case by simp
next
  case (Cons ev evs)
  let ?s' = "(emit Read s)\<lparr>vals := decode cfg ev (vals s)\<rparr>"
  have st: "step cfg (TPoller, e\<lparr>rd := Got ev\<rparr>) s = Some ?s'"
    using Cons.prems by (simp add: step_poller poller_enabled_def poller_exec_def)
  have "ppc ?s' = PRead" using Cons.prems by (simp add: emit_def)
  from Cons.IH [OF this] st show ?case
    by (simp add: emit_def replicate_app_Cons_same)
qed

section \<open>The claims about the running program\<close>

text \<open>
  Claim C2. Every call of the delegate sends, when \<open>state = 0\<close>, the pedal position
  \<open>left\<close> with stamp \<open>0\<close>, then the pedal position \<open>right\<close> with stamp \<open>10\<close>, then the
  switch state \<open>state\<close> with stamp \<open>99\<close>; when \<open>state \<noteq> 0\<close> it sends the switch state
  alone. It returns \<open>\<not> hasError\<close>. In the transition system the step of the delegate's
  body appends exactly these messages to the trace and stores the returned value.
\<close>

theorem tick_emits:
  "tick s = (if state s = 0
             then [(PedalPositionRequest (left s), 0), (PedalPositionRequest (right s), 10),
                   (SwitchStateRequest (state s), 99)]
             else [(SwitchStateRequest (state s), 99)], \<not> hasError s)
   \<and> (mpc g = MTickBody \<longrightarrow>
        step cfg (TMain, e) g
        = Some (g\<lparr>trace := trace g @ map (\<lambda>(m, k). (lock g, Send FromTick m k)) (fst (tick (vals g))),
                  cont := \<not> hasError (vals g), mpc := MTickUnlock\<rparr>))"
  by (simp add: tick_def send_def Let_def step_main main_enabled_def exec_defs)

theorem tick_emits_witness:
  "tick \<lparr>left = 1 / 2, right = - 1, state = 0, hasError = False\<rparr>
     = ([(PedalPositionRequest (1 / 2), 0), (PedalPositionRequest (- 1), 10),
         (SwitchStateRequest 0, 99)], True)
   \<and> tick \<lparr>left = 1 / 2, right = - 1, state = 3, hasError = True\<rparr>
     = ([(SwitchStateRequest 3, 99)], False)
   \<and> mpc s_tick = MTickBody
   \<and> map_option trace (step cfg0 (TMain, env0) s_tick)
     = Some (trace s_tick @ [(Some TMain, Send FromTick (SwitchStateRequest (- 1)) 99)])
   \<and> map_option cont (step cfg0 (TMain, env0) s_tick) = Some True"
proof -
  have a: "mpc s_tick = MTickBody" and b: "lock s_tick = Some TMain"
    and c: "vals s_tick = \<lparr>left = 0, right = 0, state = - 1, hasError = False\<rparr>"
    and d: "tick \<lparr>left = 0, right = 0, state = - 1, hasError = False\<rparr>
            = ([(SwitchStateRequest (- 1), 99)], True)"
    by code_simp+
  show ?thesis
    using tick_emits [of "\<lparr>left = 1 / 2, right = - 1, state = 0, hasError = False\<rparr>" s_tick cfg0 env0]
      tick_emits [of "\<lparr>left = 1 / 2, right = - 1, state = 3, hasError = True\<rparr>" s_tick cfg0 env0]
    by (simp add: a b c d)
qed

text \<open>
  Claim C3, as amended. The three neutral messages (pedal position \<open>0\<close> with stamps \<open>0\<close>
  and \<open>10\<close>, switch state \<open>-1\<close> with stamp \<open>99\<close>) are sent once, after \<open>timeTrigger\<close>
  has returned, when the session was running: in every reachable state the sent
  messages are messages of the delegate followed by nothing, or, once \<open>main\<close> is past
  the loop of a running session, followed by exactly the three neutral messages.
\<close>

theorem burst_after_ticks:
  assumes "run cfg ls init = Some s"
  shows "after_ticks (sent (trace s))
         = (if isRunning s = Some True \<and> after_loop (mpc s) then burst else [])
       \<and> burst = [(FromBurst, PedalPositionRequest 0, 0), (FromBurst, PedalPositionRequest 0, 10),
                  (FromBurst, SwitchStateRequest (- 1), 99)]"
  using flow_inv_run [OF assms] by (simp add: flow_inv_def burst_eq)

theorem burst_after_ticks_witness:
  "run cfg0 sched_one_tick init \<noteq> None
   \<and> mpc (the (run cfg0 sched_one_tick init)) = MExited
   \<and> after_ticks (sent (trace (the (run cfg0 sched_one_tick init))))
     = [(FromBurst, PedalPositionRequest 0, 0), (FromBurst, PedalPositionRequest 0, 10),
        (FromBurst, SwitchStateRequest (- 1), 99)]"
proof -
  have r: "run cfg0 sched_one_tick init = Some (the (run cfg0 sched_one_tick init))"
    and a: "isRunning (the (run cfg0 sched_one_tick init)) = Some True"
    and b: "mpc (the (run cfg0 sched_one_tick init)) = MExited"
    and n: "run cfg0 sched_one_tick init \<noteq> None"
    by code_simp+
  have "after_ticks (sent (trace (the (run cfg0 sched_one_tick init))))
        = [(FromBurst, PedalPositionRequest 0, 0), (FromBurst, PedalPositionRequest 0, 10),
           (FromBurst, SwitchStateRequest (- 1), 99)]"
    using burst_after_ticks [OF r] by (simp add: a b after_loop_def)
  with n b show ?thesis by blast
qed

text \<open>
  Claim C3 as stated fails: in the run with one call of the delegate, the message of the
  delegate is the first one sent and the neutral messages follow it.
\<close>

theorem burst_follows_tick_counterexample:
  "map_option sent (map_option trace (run cfg0 sched_one_tick init))
   = Some [(FromTick, SwitchStateRequest (- 1), 99),
           (FromBurst, PedalPositionRequest 0, 0), (FromBurst, PedalPositionRequest 0, 10),
           (FromBurst, SwitchStateRequest (- 1), 99)]"
  by code_simp

text \<open>
  Claim C4: the code returns \<open>0\<close> where the claim asks for a nonzero status. When
  \<open>open\<close> fails, \<open>main\<close> writes the diagnostic with the path and \<open>errno\<close>, starts no
  thread, and exits with \<open>retCode = 0\<close>.
\<close>

theorem open_failure_exits_zero:
  "map_option mpc (run cfg0 sched_open_fail init) = Some MExited
   \<and> map_option ppc (run cfg0 sched_open_fail init) = Some PNotStarted
   \<and> map_option retCode (run cfg0 sched_open_fail init) = Some 0
   \<and> map_option trace (run cfg0 sched_open_fail init)
     = Some [(None, Cerr (CouldNotOpen ''/dev/input/js0'' 2)), (None, Exit 0)]"
  by code_simp

text \<open>
  Claim C5: the code calls \<open>join\<close> before it releases \<open>valuesMutex\<close>. When the reading
  thread has found the device readable and waits for the mutex, \<open>main\<close> waits in \<open>join\<close>
  holding the mutex: neither thread can take a step (lemma \<open>disabled_no_step\<close>), and
  the device stays open. In a shutdown that does complete, the order is: acquire, set
  \<open>hasError\<close>, join, release, close.
\<close>

theorem shutdown_joins_holding_mutex:
  "map_option mpc (run cfg0 sched_deadlock init) = Some MSdJoin
   \<and> map_option ppc (run cfg0 sched_deadlock init) = Some PLock
   \<and> map_option lock (run cfg0 sched_deadlock init) = Some (Some TMain)
   \<and> map_option dev (run cfg0 sched_deadlock init) = Some DevOpen
   \<and> map_option main_enabled (run cfg0 sched_deadlock init) = Some False
   \<and> map_option poller_enabled (run cfg0 sched_deadlock init) = Some False
   \<and> map_option trace (run cfg0 sched_not_running init)
     = Some [(None, Clog), (None, Spawn), (None, Acquire TMain), (Some TMain, SetError),
             (Some TMain, Join), (Some TMain, Release TMain), (None, Close), (None, Exit 0)]"
  by code_simp

text \<open>
  Claim C7. \<open>hasError\<close> is \<open>False\<close> initially, and no step of \<open>main\<close> or of the reading
  thread, hence no run, takes it from \<open>True\<close> back to \<open>False\<close>.
\<close>

theorem hasError_write_once:
  "\<not> hasError (vals init)
   \<and> (\<forall>l s s'. step cfg l s = Some s' \<longrightarrow> hasError (vals s) \<longrightarrow> hasError (vals s'))
   \<and> (\<forall>ls s s'. run cfg ls s = Some s' \<longrightarrow> hasError (vals s) \<longrightarrow> hasError (vals s'))"
  by (auto simp: init_def shared_init_def intro: step_hasError run_hasError)

theorem hasError_write_once_witness:
  "hasError (vals s_err)
   \<and> step cfg0 (TPoller, env0) s_err \<noteq> None
   \<and> hasError (vals (the (step cfg0 (TPoller, env0) s_err)))
   \<and> run cfg0 (drop 8 sched_read_error) s_err \<noteq> None
   \<and> hasError (vals (the (run cfg0 (drop 8 sched_read_error) s_err)))"
proof -
  have a: "hasError (vals s_err)" by code_simp
  have b: "step cfg0 (TPoller, env0) s_err = Some (the (step cfg0 (TPoller, env0) s_err))"
    and c: "step cfg0 (TPoller, env0) s_err \<noteq> None"
    and d: "run cfg0 (drop 8 sched_read_error) s_err
            = Some (the (run cfg0 (drop 8 sched_read_error) s_err))"
    and e: "run cfg0 (drop 8 sched_read_error) s_err \<noteq> None"
    by code_simp+
  from hasError_write_once [of cfg0] b a
  have f: "hasError (vals (the (step cfg0 (TPoller, env0) s_err)))" by blast
  from hasError_write_once [of cfg0] d a
  have "hasError (vals (the (run cfg0 (drop 8 sched_read_error) s_err)))" by blast
  with a c e f show ?thesis by blast
qed

text \<open>
  Claim C8, as amended. When \<open>od4.isRunning()\<close> is false, no message at all is sent
  (the three neutral messages are inside the same \<open>if\<close> as the loop), \<open>main\<close> is in its
  shutdown sequence or past it, and when it has exited the device is closed and
  \<open>retCode\<close> is \<open>0\<close>.
\<close>

theorem not_running_sends_nothing:
  assumes "run cfg ls init = Some s" and "isRunning s = Some False"
  shows "sent (trace s) = [] \<and> after_loop (mpc s)
         \<and> (mpc s = MExited \<longrightarrow> dev s = DevClosed \<and> retCode s = 0)"
  using flow_inv_run [OF assms(1)] assms(2)
  by (cases "mpc s") (simp_all add: flow_inv_def pc_defs)

theorem not_running_sends_nothing_witness:
  "run cfg0 sched_not_running init \<noteq> None
   \<and> isRunning (the (run cfg0 sched_not_running init)) = Some False
   \<and> mpc (the (run cfg0 sched_not_running init)) = MExited
   \<and> sent (trace (the (run cfg0 sched_not_running init))) = []
   \<and> dev (the (run cfg0 sched_not_running init)) = DevClosed"
proof -
  have r: "run cfg0 sched_not_running init = Some (the (run cfg0 sched_not_running init))"
    and a: "isRunning (the (run cfg0 sched_not_running init)) = Some False"
    and b: "mpc (the (run cfg0 sched_not_running init)) = MExited"
    and n: "run cfg0 sched_not_running init \<noteq> None"
    by code_simp+
  have "sent (trace (the (run cfg0 sched_not_running init))) = []
        \<and> dev (the (run cfg0 sched_not_running init)) = DevClosed"
    using not_running_sends_nothing [OF r a] by (simp add: b)
  with n a b show ?thesis by blast
qed

text \<open>
  Claim C8 as stated fails: in a complete run with \<open>od4.isRunning()\<close> false, nothing is
  sent, the neutral messages included.
\<close>

theorem not_running_no_burst_counterexample:
  "map_option isRunning (run cfg0 sched_not_running init) = Some (Some False)
   \<and> map_option mpc (run cfg0 sched_not_running init) = Some MExited
   \<and> map_option sent (map_option trace (run cfg0 sched_not_running init)) = Some []"
  by code_simp

text \<open>
  Claim C9, as amended. Every \<open>read\<close> of the device and the diagnostic of a read error
  are performed while the reading thread holds \<open>valuesMutex\<close>; every message of the
  delegate is sent while \<open>main\<close> holds it (the \<open>lock_guard\<close> lives until the delegate
  returns); the three neutral messages are sent while \<open>main\<close> does not hold it.
\<close>

theorem io_and_sends_under_lock:
  assumes "run cfg ls init = Some s"
  shows "list_all under_lock (trace s)"
  using lock_inv_run [OF assms] by (simp add: lock_inv_def)

theorem io_and_sends_under_lock_witness:
  "run cfg0 sched_read_error init \<noteq> None
   \<and> list_all under_lock (trace (the (run cfg0 sched_read_error init)))"
proof -
  have r: "run cfg0 sched_read_error init = Some (the (run cfg0 sched_read_error init))"
    and n: "run cfg0 sched_read_error init \<noteq> None"
    by code_simp+
  from io_and_sends_under_lock [OF r] n show ?thesis by blast
qed

text \<open>
  Claim C9 as stated fails: in this run both \<open>read\<close>s and the diagnostic are performed
  with the mutex held by the reading thread, and the three messages of the delegate are
  sent with the mutex held by \<open>main\<close>.
\<close>

theorem critical_section_io_counterexample:
  "map_option trace (run cfg0 sched_read_error init)
   = Some [(None, Clog), (None, Spawn), (None, Select), (None, Acquire TPoller),
           (Some TPoller, Read), (Some TPoller, Read), (Some TPoller, Cerr (ReadError 19)),
           (Some TPoller, Release TPoller), (None, Acquire TMain),
           (Some TMain, Send FromTick (PedalPositionRequest 0) 0),
           (Some TMain, Send FromTick (PedalPositionRequest 0) 10),
           (Some TMain, Send FromTick (SwitchStateRequest 0) 99),
           (Some TMain, Release TMain),
           (None, Send FromBurst (PedalPositionRequest 0) 0),
           (None, Send FromBurst (PedalPositionRequest 0) 10),
           (None, Send FromBurst (SwitchStateRequest (- 1)) 99),
           (None, Acquire TMain), (Some TMain, SetError), (Some TMain, Join),
           (Some TMain, Release TMain), (None, Close), (None, Exit 0)]"
  by code_simp

text \<open>
  Claim C10. When the reads of one critical section return the events \<open>evs\<close> and the
  next read fails with an \<open>errno\<close> other than \<open>EAGAIN\<close>, the variables afterwards are
  the events applied in order to the variables before, with \<open>hasError\<close> set; the mutex
  is not released in between (the trace gains the reads and the diagnostic only, and
  the thread stands before its release).
\<close>

theorem read_error_keeps_mutations:
  assumes "ppc s = PRead" and "n \<noteq> EAGAIN"
  shows "run cfg (map (\<lambda>ev. (TPoller, e\<lparr>rd := Got ev\<rparr>)) evs
                  @ [(TPoller, e\<lparr>rd := Failed n\<rparr>), (TPoller, e')]) s
         = Some (s\<lparr>vals := (fold (decode cfg) evs (vals s))\<lparr>hasError := True\<rparr>,
                   p_errno := n, ppc := PUnlock,
                   trace := trace s @ replicate (Suc (length evs)) (lock s, Read)
                            @ [(lock s, Cerr (ReadError n))]\<rparr>)"
  using assms
  by (simp add: run_append drain_events [OF assms(1)] step_poller poller_enabled_def
      poller_exec_def emit_def replicate_append_same)

theorem read_error_keeps_mutations_witness:
  "ppc s_read = PRead \<and> lock s_read = Some TPoller \<and> vals s_read = shared_init
   \<and> map_option vals
        (run cfg0 [(TPoller, env0\<lparr>rd := Got (button_ev 0 1)\<rparr>),
                   (TPoller, env0\<lparr>rd := Got (axis_ev 1 (- 32768))\<rparr>),
                   (TPoller, env0\<lparr>rd := Failed 19\<rparr>), (TPoller, env0)] s_read)
      = Some \<lparr>left = 1, right = 0, state = 0, hasError = True\<rparr>"
proof -
  have a: "ppc s_read = PRead" and b: "lock s_read = Some TPoller"
    and c: "vals s_read = shared_init" by code_simp+
  have d: "(19::int) \<noteq> EAGAIN" by (simp add: EAGAIN_def)
  have e: "decode cfg0 (axis_ev 1 (- 32768)) (decode cfg0 (button_ev 0 1) shared_init)
           = \<lparr>left = 1, right = 0, state = 0, hasError = False\<rparr>" by code_simp
  show ?thesis
    using read_error_keeps_mutations [OF a d, of cfg0 env0 "[button_ev 0 1, axis_ev 1 (- 32768)]" env0]
    by (simp add: a b c e del: run.simps)
qed

end
